theory Spec2Isabelle
  imports Complex_Main "HOL-Library.Log_Nat"
begin

section \<open>JavaScript numbers\<close>

text \<open>
  Every quantity of the slider is a JavaScript number. The model keeps the three
  non-finite values apart from the finite ones, because the source divides by the
  travel distance and by \<open>maxValue\<close> without testing either for zero, and in JavaScript
  such a division does not raise: it yields \<open>Infinity\<close>, \<open>-Infinity\<close> or \<open>NaN\<close>,
  which then flow on through \<open>Math.round\<close>, \<open>Math.min\<close>, \<open>Math.max\<close> and \<open>!==\<close>.

  Finite numbers are rationals, and the operators of this section are exact. The
  program computes in binary64, where the result of every operator is rounded; the
  section on binary floating point below adds that rounding, and the handlers of the
  slider are given twice: with the exact operators, for the statements that rest on
  order and monotonicity, and with every operator result rounded by a function
  \<open>fl\<close>, for the statement about the very numbers a move event writes (C1). Exact
  arithmetic can round differently from binary64 (\<open>29 / 200 * 100\<close> is 14.5 exactly
  and rounds to 15, and is 14.499999999999998 in binary64 and rounds to 14). The two
  versions of a handler coincide for \<open>fl = Fin\<close>. The sign of zero is not modelled
  (the only divisors of the source are a difference of two widths and \<open>maxValue\<close>,
  neither of which is ever \<open>-0\<close>).
  A property that is read from an object before it was assigned is \<open>undefined\<close>; in
  every place the source uses such a value (arithmetic, \<open>Math.min\<close>, and \<open>!==\<close>
  against a number) \<open>undefined\<close> behaves exactly as \<open>NaN\<close> does, so it is written
  \<open>NaN\<close>.
\<close>

datatype number = Fin rat | PInf | NInf | NaN

fun jneg :: "number \<Rightarrow> number" where
  "jneg (Fin a) = Fin (- a)"
| "jneg PInf = NInf"
| "jneg NInf = PInf"
| "jneg NaN = NaN"

text \<open>The operator \<open>+\<close>.\<close>

fun jadd :: "number \<Rightarrow> number \<Rightarrow> number" where
  "jadd NaN _ = NaN"
| "jadd _ NaN = NaN"
| "jadd (Fin a) (Fin b) = Fin (a + b)"
| "jadd PInf NInf = NaN"
| "jadd NInf PInf = NaN"
| "jadd PInf _ = PInf"
| "jadd _ PInf = PInf"
| "jadd NInf _ = NInf"
| "jadd _ NInf = NInf"

text \<open>The operator \<open>-\<close>.\<close>

definition jsub :: "number \<Rightarrow> number \<Rightarrow> number" where
  "jsub a b = jadd a (jneg b)"

text \<open>The operator \<open>*\<close>: an infinity times zero is \<open>NaN\<close>.\<close>

fun jmul :: "number \<Rightarrow> number \<Rightarrow> number" where
  "jmul NaN _ = NaN"
| "jmul _ NaN = NaN"
| "jmul (Fin a) (Fin b) = Fin (a * b)"
| "jmul (Fin a) y = (if a = 0 then NaN else if 0 < a then y else jneg y)"
| "jmul x (Fin b) = (if b = 0 then NaN else if 0 < b then x else jneg x)"
| "jmul x y = (if x = y then PInf else NInf)"

text \<open>
  The operator \<open>/\<close>: a finite number over zero is an infinity of the sign of the
  numerator, and zero over zero is \<open>NaN\<close>.
\<close>

fun jdiv :: "number \<Rightarrow> number \<Rightarrow> number" where
  "jdiv NaN _ = NaN"
| "jdiv _ NaN = NaN"
| "jdiv (Fin a) (Fin b) =
     (if b \<noteq> 0 then Fin (a / b)
      else if a = 0 then NaN
      else if 0 < a then PInf else NInf)"
| "jdiv (Fin a) _ = Fin 0"
| "jdiv x (Fin b) = (if 0 \<le> b then x else jneg x)"
| "jdiv _ _ = NaN"

text \<open>The order of the numbers that are not \<open>NaN\<close>.\<close>

fun jle :: "number \<Rightarrow> number \<Rightarrow> bool" where
  "jle NaN _ = False"
| "jle _ NaN = False"
| "jle NInf _ = True"
| "jle _ PInf = True"
| "jle (Fin a) (Fin b) = (a \<le> b)"
| "jle _ _ = False"

text \<open>\<open>Math.min\<close> and \<open>Math.max\<close> of two arguments: \<open>NaN\<close> if either is.\<close>

definition jmin :: "number \<Rightarrow> number \<Rightarrow> number" where
  "jmin a b = (if a = NaN \<or> b = NaN then NaN else if jle a b then a else b)"

definition jmax :: "number \<Rightarrow> number \<Rightarrow> number" where
  "jmax a b = (if a = NaN \<or> b = NaN then NaN else if jle a b then b else a)"

text \<open>
  \<open>Math.round\<close>: the nearest integer, a tie going up, which is
  \<open>\<lfloor>x + 1/2\<rfloor>\<close>, the \<^const>\<open>round\<close> of the library.
\<close>

fun jround :: "number \<Rightarrow> number" where
  "jround (Fin a) = Fin (of_int (round a))"
| "jround x = x"

text \<open>The operator \<open>!==\<close> on numbers: \<open>NaN\<close> differs from everything, itself included.\<close>

definition strict_neq :: "number \<Rightarrow> number \<Rightarrow> bool" where
  "strict_neq a b = (a = NaN \<or> b = NaN \<or> a \<noteq> b)"

section \<open>The shared value store (SliderContext)\<close>

text \<open>
  \<open>SliderProvider\<close> holds two state variables, created with \<open>useState(100)\<close> and
  \<open>useState(50)\<close>, and hands \<open>{maxValue, value, setValue}\<close> to its consumers.
  The setter of \<open>maxValue\<close> is created but never passed on. The field \<open>value\<close> is
  written \<open>value_s\<close> here.
\<close>

record SliderState =
  maxValue :: number
  value_s :: number

definition SliderProvider :: SliderState where
  "SliderProvider = \<lparr>maxValue = Fin 100, value_s = Fin 50\<rparr>"

definition setValue :: "number \<Rightarrow> SliderState \<Rightarrow> SliderState" where
  "setValue v c = c\<lparr>value_s := v\<rparr>"

section \<open>The slider component\<close>

text \<open>
  \<open>dragData.current\<close> is the object \<open>{left, max, offset}\<close>; the field \<open>max\<close> is
  written \<open>max_d\<close>.
\<close>

record DragData =
  left :: number
  max_d :: number
  offset :: number

text \<open>The calls of the two state setters, in the order the handlers make them.\<close>

datatype call = SetValue number | SetLeft number

text \<open>
  One mounted slider: the context it reads (\<open>ctx\<close>), its state variable \<open>left\<close>
  (\<open>left_st\<close>, the pixel offset the thumb is drawn at), the ref \<open>dragData\<close>, the
  number of \<open>drag\<close> listeners registered for \<open>mousemove\<close> on the document body
  (every one of them registered together with its own one-shot \<open>drop\<close> listener for
  \<open>mouseup\<close>), and the setter calls made so far.
\<close>

record Slider =
  ctx :: SliderState
  left_st :: number
  dragData :: DragData
  listeners :: nat
  calls :: "call list"

text \<open>The first render: \<open>useState(0)\<close>, \<open>useRef({})\<close>, no listener.\<close>

definition mount :: "SliderState \<Rightarrow> Slider" where
  "mount c = \<lparr>ctx = c, left_st = Fin 0,
              dragData = \<lparr>left = NaN, max_d = NaN, offset = NaN\<rparr>,
              listeners = 0, calls = []\<rparr>"

text \<open>
  \<open>initialize\<close> runs once after the first render. Its two measurements, the client
  width of the track and the width of the thumb's bounding rectangle, are arguments.
  The ref is replaced by a new object without \<open>offset\<close>.
\<close>

definition initialize :: "rat \<Rightarrow> rat \<Rightarrow> Slider \<Rightarrow> Slider" where
  "initialize sliderWidth width s =
     (let mx = jsub (Fin sliderWidth) (Fin width);
          lf = jdiv (jmul mx (value_s (ctx s))) (maxValue (ctx s))
      in s\<lparr>dragData := \<lparr>left = lf, max_d = mx, offset = NaN\<rparr>,
            left_st := lf,
            calls := calls s @ [SetLeft lf]\<rparr>)"

text \<open>The \<open>mousemove\<close> listener; \<open>pageX\<close> is the coordinate of the event.\<close>

definition drag :: "rat \<Rightarrow> Slider \<Rightarrow> Slider" where
  "drag pageX s =
     (let d = dragData s;
          next = jmax (Fin 0) (jmin (jadd (Fin pageX) (offset d)) (max_d d))
      in if strict_neq (left d) next then
           let v = jround (jmul (jdiv next (max_d d)) (maxValue (ctx s)));
               next' = jdiv (jmul (max_d d) v) (maxValue (ctx s))
           in s\<lparr>ctx := setValue v (ctx s),
                 dragData := d\<lparr>left := next'\<rparr>,
                 left_st := next',
                 calls := calls s @ [SetValue v, SetLeft next']\<rparr>
         else s)"

text \<open>The \<open>mouseup\<close> listener removes the \<open>drag\<close> listener it was created with.\<close>

definition drop_l :: "Slider \<Rightarrow> Slider" where
  "drop_l s = s\<lparr>listeners := listeners s - 1\<rparr>"

text \<open>
  The \<open>mousedown\<close> handler of the thumb: it records the pointer offset and registers
  a new \<open>drag\<close> and a new \<open>drop\<close> listener, whatever is registered already.
\<close>

definition startDrag :: "rat \<Rightarrow> Slider \<Rightarrow> Slider" where
  "startDrag pageX s =
     s\<lparr>dragData := (dragData s)\<lparr>offset := jsub (left (dragData s)) (Fin pageX)\<rparr>,
       listeners := Suc (listeners s)\<rparr>"

text \<open>
  The events of the page. A \<open>mousemove\<close> runs every registered \<open>drag\<close> listener, a
  \<open>mouseup\<close> every registered \<open>drop\<close> listener, one after the other.
\<close>

datatype event = MouseDown rat | MouseMove rat | MouseUp

fun dispatch :: "Slider \<Rightarrow> event \<Rightarrow> Slider" where
  "dispatch s (MouseDown pageX) = startDrag pageX s"
| "dispatch s (MouseMove pageX) = (drag pageX ^^ listeners s) s"
| "dispatch s MouseUp = (drop_l ^^ listeners s) s"

definition run :: "Slider \<Rightarrow> event list \<Rightarrow> Slider" where
  "run s evs = foldl dispatch s evs"

text \<open>The values handed to \<open>setValue\<close>, oldest first.\<close>

fun emitted :: "call list \<Rightarrow> number list" where
  "emitted [] = []"
| "emitted (SetValue v # cs) = v # emitted cs"
| "emitted (SetLeft _ # cs) = emitted cs"

section \<open>Binary floating point\<close>

text \<open>
  \<open>fl64\<close> rounds a rational to the nearest binary64 number, a tie going to the even
  significand. \<open>ilog2 a\<close> is the exponent of a positive rational, the whole number
  \<open>e\<close> with \<open>2 powi e \<le> a < 2 powi (e + 1)\<close>. Numbers below \<open>2 powi (- 1022)\<close> share
  the exponent -1022 (the subnormal numbers), the unit in the last place is 2 to the
  exponent less 52, and a rounded magnitude of \<open>2 powi 1024\<close> or more is an infinity.
\<close>

definition ilog2 :: "rat \<Rightarrow> int" where
  "ilog2 a = (let (p, q) = quotient_of a; d = bitlen p - bitlen q
              in if 2 powi d \<le> a then d else d - 1)"

definition round_even :: "rat \<Rightarrow> int" where
  "round_even y = (let f = \<lfloor>y\<rfloor>; r = y - of_int f
                   in if r < 1/2 then f else if 1/2 < r then f + 1
                      else if even f then f else f + 1)"

definition fl64 :: "rat \<Rightarrow> number" where
  "fl64 x = (if x = 0 then Fin 0 else
     let e = max (ilog2 \<bar>x\<bar>) (- 1022);
         u = 2 powi (e - 52);
         r = of_int (round_even (\<bar>x\<bar> / u)) * u
     in if 1024 \<le> ilog2 r then (if 0 < x then PInf else NInf)
        else Fin (if 0 < x then r else - r))"

text \<open>
  An operator of the program on two numbers: the exact result, rounded by \<open>fl\<close> if
  it is finite. \<open>Math.min\<close>, \<open>Math.max\<close>, \<open>!==\<close> and, on a binary64 number,
  \<open>Math.round\<close> are exact.
\<close>

fun rnd :: "(rat \<Rightarrow> number) \<Rightarrow> number \<Rightarrow> number" where
  "rnd fl (Fin q) = fl q"
| "rnd fl x = x"

definition fadd :: "(rat \<Rightarrow> number) \<Rightarrow> number \<Rightarrow> number \<Rightarrow> number" where
  "fadd fl a b = rnd fl (jadd a b)"

definition fsub :: "(rat \<Rightarrow> number) \<Rightarrow> number \<Rightarrow> number \<Rightarrow> number" where
  "fsub fl a b = rnd fl (jsub a b)"

definition fmul :: "(rat \<Rightarrow> number) \<Rightarrow> number \<Rightarrow> number \<Rightarrow> number" where
  "fmul fl a b = rnd fl (jmul a b)"

definition fdiv :: "(rat \<Rightarrow> number) \<Rightarrow> number \<Rightarrow> number \<Rightarrow> number" where
  "fdiv fl a b = rnd fl (jdiv a b)"

text \<open>
  \<open>initialize\<close>, \<open>startDrag\<close> and \<open>drag\<close> once more, every operator result rounded
  by \<open>fl\<close>.
\<close>

definition initialize_fl :: "(rat \<Rightarrow> number) \<Rightarrow> rat \<Rightarrow> rat \<Rightarrow> Slider \<Rightarrow> Slider" where
  "initialize_fl fl sliderWidth width s =
     (let mx = fsub fl (Fin sliderWidth) (Fin width);
          lf = fdiv fl (fmul fl mx (value_s (ctx s))) (maxValue (ctx s))
      in s\<lparr>dragData := \<lparr>left = lf, max_d = mx, offset = NaN\<rparr>,
            left_st := lf,
            calls := calls s @ [SetLeft lf]\<rparr>)"

definition drag_fl :: "(rat \<Rightarrow> number) \<Rightarrow> rat \<Rightarrow> Slider \<Rightarrow> Slider" where
  "drag_fl fl pageX s =
     (let d = dragData s;
          next = jmax (Fin 0) (jmin (fadd fl (Fin pageX) (offset d)) (max_d d))
      in if strict_neq (left d) next then
           let v = jround (fmul fl (fdiv fl next (max_d d)) (maxValue (ctx s)));
               next' = fdiv fl (fmul fl (max_d d) v) (maxValue (ctx s))
           in s\<lparr>ctx := setValue v (ctx s),
                 dragData := d\<lparr>left := next'\<rparr>,
                 left_st := next',
                 calls := calls s @ [SetValue v, SetLeft next']\<rparr>
         else s)"

definition startDrag_fl :: "(rat \<Rightarrow> number) \<Rightarrow> rat \<Rightarrow> Slider \<Rightarrow> Slider" where
  "startDrag_fl fl pageX s =
     s\<lparr>dragData := (dragData s)\<lparr>offset := fsub fl (left (dragData s)) (Fin pageX)\<rparr>,
       listeners := Suc (listeners s)\<rparr>"

section \<open>Predicates used in the statements and the proofs\<close>

text \<open>\<open>in_range mx v\<close> is the invariant \<open>0 <= v <= mx\<close> of the store.\<close>

definition in_range :: "number \<Rightarrow> number \<Rightarrow> bool" where
  "in_range mx v \<longleftrightarrow> jle (Fin 0) v \<and> jle v mx"

text \<open>
  The thumb and the store agree: the recorded offset and the drawn offset are both
  the image of the stored number under the linear relation, all numbers involved are
  finite, and while a listener is registered the pointer offset is finite as well.
\<close>

definition synced :: "rat \<Rightarrow> rat \<Rightarrow> Slider \<Rightarrow> bool" where
  "synced m mv s \<longleftrightarrow>
     max_d (dragData s) = Fin m \<and> maxValue (ctx s) = Fin mv \<and>
     (\<exists>v. value_s (ctx s) = Fin v \<and> left (dragData s) = Fin (m * v / mv)
          \<and> left_st s = Fin (m * v / mv)) \<and>
     (0 < listeners s \<longrightarrow> (\<exists>off. offset (dragData s) = Fin off))"

definition ranged :: "rat \<Rightarrow> Slider \<Rightarrow> bool" where
  "ranged M s \<longleftrightarrow>
     in_range (Fin M) (value_s (ctx s)) \<and> list_all (in_range (Fin M)) (emitted (calls s))"

text \<open>Whether a number is finite, and the argument of a setter call.\<close>

fun is_Fin :: "number \<Rightarrow> bool" where
  "is_Fin (Fin _) = True"
| "is_Fin _ = False"

fun call_arg :: "call \<Rightarrow> number" where
  "call_arg (SetValue v) = v"
| "call_arg (SetLeft v) = v"

text \<open>
  During a run of move events the pointer offset, the travel distance and \<open>maxValue\<close>
  stay what they are and the recorded offset stays finite (\<open>steady\<close>); \<open>reading\<close> is
  the whole number the handler computes for a pointer coordinate.
\<close>

definition steady :: "rat \<Rightarrow> rat \<Rightarrow> rat \<Rightarrow> Slider \<Rightarrow> bool" where
  "steady off m mv s \<longleftrightarrow>
     offset (dragData s) = Fin off \<and> max_d (dragData s) = Fin m \<and>
     maxValue (ctx s) = Fin mv \<and> is_Fin (left (dragData s))"

definition reading :: "rat \<Rightarrow> rat \<Rightarrow> rat \<Rightarrow> rat \<Rightarrow> int" where
  "reading off m mv x = round (max 0 (min (x + off) m) / m * mv)"

section \<open>Arithmetic of finite numbers\<close>

lemma jmin_Fin [simp]: "jmin (Fin a) (Fin b) = Fin (min a b)"
  by (simp add: jmin_def min_def)

lemma jmax_Fin [simp]: "jmax (Fin a) (Fin b) = Fin (max a b)"
  by (simp add: jmax_def max_def)

lemma jsub_Fin [simp]: "jsub (Fin a) (Fin b) = Fin (a - b)"
  by (simp add: jsub_def)

lemma strict_neq_Fin [simp]: "strict_neq (Fin a) (Fin b) \<longleftrightarrow> a \<noteq> b"
  by (simp add: strict_neq_def)

lemma round_eq_iff:
  "round (x::rat) = y \<longleftrightarrow> of_int y \<le> x + 1/2 \<and> x + 1/2 < of_int y + 1"
  by (simp add: round_def floor_eq_iff)

lemma round_3725_72: "round (3725 / 72 :: rat) = 52"
  by (simp add: round_eq_iff)

lemma round_scaled_bounds:
  fixes n m :: rat
  assumes "0 \<le> n" and "n \<le> m" and "0 < m" and "0 < M"
  shows "0 \<le> round (n / m * of_int M)" and "round (n / m * of_int M) \<le> M"
proof -
  have q: "0 \<le> n / m" "n / m \<le> 1" using assms by simp_all
  then have lo: "0 \<le> n / m * of_int M"
    using assms(4) by (intro mult_nonneg_nonneg) simp_all
  have "n / m * of_int M \<le> 1 * of_int M"
    using q(2) assms(4) by (intro mult_right_mono) simp_all
  then have hi: "n / m * of_int M \<le> of_int M" by simp
  from round_mono [OF lo] show "0 \<le> round (n / m * of_int M)" by simp
  from round_mono [OF hi] show "round (n / m * of_int M) \<le> M" by simp
qed

lemma emitted_append [simp]: "emitted (xs @ ys) = emitted xs @ emitted ys"
  by (induction xs rule: emitted.induct) simp_all

section \<open>The move listener on finite data\<close>

lemma drag_Fin:
  assumes "left (dragData s) = Fin l" and "max_d (dragData s) = Fin m"
    and "offset (dragData s) = Fin off" and "maxValue (ctx s) = Fin mv" and "m \<noteq> 0"
  shows "drag x s =
    (let n = max 0 (min (x + off) m) in
     if l = n then s
     else let v = of_int (round (n / m * mv)); n' = jdiv (Fin (m * v)) (Fin mv)
          in s\<lparr>ctx := (ctx s)\<lparr>value_s := Fin v\<rparr>,
                dragData := (dragData s)\<lparr>left := n'\<rparr>,
                left_st := n',
                calls := calls s @ [SetValue (Fin v), SetLeft n']\<rparr>)"
  using assms by (simp add: drag_def Let_def setValue_def)

lemma drag_Fin0:
  assumes "left (dragData s) = Fin 0" and "max_d (dragData s) = Fin 0"
    and "offset (dragData s) = Fin off"
  shows "drag x s = s"
  using assms by (simp add: drag_def Let_def)

lemma listeners_drag [simp]: "listeners (drag x s) = listeners s"
  by (simp add: drag_def Let_def)

section \<open>Invariants of event sequences\<close>

lemma funpow_invariant:
  assumes "P s" and "\<And>t. P t \<Longrightarrow> P (f t)"
  shows "P ((f ^^ k) s)"
  using assms by (induction k) simp_all

lemma drags_invariant:
  assumes "P s" and "0 < listeners s"
    and step: "\<And>t. P t \<Longrightarrow> 0 < listeners t \<Longrightarrow> P (drag x t)"
  shows "P ((drag x ^^ k) s)"
proof -
  have "P ((drag x ^^ k) s) \<and> 0 < listeners ((drag x ^^ k) s)"
  proof (induction k)
    case 0
    from assms(1,2) show ?case by simp
  next
    case (Suc k)
    then have "P (drag x ((drag x ^^ k) s))" by (intro step) simp_all
    with Suc show ?case by simp
  qed
  then show ?thesis ..
qed

lemma dispatch_invariant:
  assumes "P s"
    and "\<And>t x. P t \<Longrightarrow> P (startDrag x t)"
    and "\<And>t x. P t \<Longrightarrow> 0 < listeners t \<Longrightarrow> P (drag x t)"
    and "\<And>t. P t \<Longrightarrow> P (drop_l t)"
  shows "P (dispatch s e)"
proof (cases e)
  case (MouseDown x)
  with assms(1,2) show ?thesis by simp
next
  case (MouseMove x)
  show ?thesis
  proof (cases "listeners s")
    case 0
    with MouseMove assms(1) show ?thesis by simp
  next
    case (Suc n)
    then have pos: "0 < listeners s" by simp
    have "P ((drag x ^^ listeners s) s)"
      by (rule drags_invariant [OF assms(1) pos assms(3)])
    with MouseMove show ?thesis by simp
  qed
next
  case MouseUp
  have "P ((drop_l ^^ listeners s) s)"
    by (rule funpow_invariant [where P = P]) (simp_all add: assms)
  with MouseUp show ?thesis by simp
qed

lemma run_invariant:
  assumes "P s"
    and "\<And>t x. P t \<Longrightarrow> P (startDrag x t)"
    and "\<And>t x. P t \<Longrightarrow> 0 < listeners t \<Longrightarrow> P (drag x t)"
    and "\<And>t. P t \<Longrightarrow> P (drop_l t)"
  shows "P (run s evs)"
  using assms(1) unfolding run_def
proof (induction evs arbitrary: s)
  case Nil
  then show ?case by simp
next
  case (Cons e evs)
  from Cons.prems have "P (dispatch s e)"
    by (rule dispatch_invariant) (simp_all add: assms)
  then show ?case by (simp add: Cons.IH)
qed

lemma synced_initialize:
  assumes "maxValue c = Fin mv" and "value_s c = Fin v" and "mv \<noteq> 0"
  shows "synced (sw - w) mv (initialize sw w (mount c))"
  using assms by (simp add: synced_def initialize_def mount_def Let_def)

lemma synced_startDrag:
  assumes "synced m mv s"
  shows "synced m mv (startDrag x s)"
  using assms by (auto simp: synced_def startDrag_def)

lemma synced_drop_l:
  assumes "synced m mv s"
  shows "synced m mv (drop_l s)"
  using assms by (auto simp: synced_def drop_l_def)

lemma synced_drag:
  assumes "synced m mv s" and "0 < listeners s" and "mv \<noteq> 0"
  shows "synced m mv (drag x s)"
proof -
  from assms obtain v off where
    mx: "max_d (dragData s) = Fin m" and mv: "maxValue (ctx s) = Fin mv"
    and v: "value_s (ctx s) = Fin v" and l: "left (dragData s) = Fin (m * v / mv)"
    and ls: "left_st s = Fin (m * v / mv)" and off: "offset (dragData s) = Fin off"
    by (auto simp: synced_def)
  show ?thesis
  proof (cases "m = 0")
    case True
    with mx l off have "drag x s = s" by (simp add: drag_Fin0)
    with assms show ?thesis by simp
  next
    case False
    show ?thesis
      unfolding drag_Fin [OF l mx off mv False]
      using assms \<open>mv \<noteq> 0\<close> by (auto simp: synced_def Let_def)
  qed
qed

lemma synced_run:
  assumes "synced m mv s" and "mv \<noteq> 0"
  shows "synced m mv (run s evs)"
  using assms(1)
  by (rule run_invariant) (simp_all add: synced_startDrag synced_drag synced_drop_l assms(2))

lemma ranged_drag:
  assumes "synced m (of_int M) s" and "ranged (of_int M) s" and "0 < listeners s"
    and "0 < m" and "0 < M"
  shows "ranged (of_int M) (drag x s)"
proof -
  from assms(1,3) obtain v off where
    mx: "max_d (dragData s) = Fin m" and mv: "maxValue (ctx s) = Fin (of_int M)"
    and l: "left (dragData s) = Fin (m * v / of_int M)"
    and off: "offset (dragData s) = Fin off"
    by (auto simp: synced_def)
  from assms(4) have m0: "m \<noteq> 0" by simp
  let ?n = "max 0 (min (x + off) m)"
  have "0 \<le> ?n" "?n \<le> m" using assms(4) by simp_all
  from round_scaled_bounds [OF this assms(4,5)]
  have "0 \<le> rat_of_int (round (?n / m * of_int M))"
    and "rat_of_int (round (?n / m * of_int M)) \<le> of_int M"
    by simp_all
  with assms(2) show ?thesis
    unfolding drag_Fin [OF l mx off mv m0]
    by (simp add: ranged_def in_range_def Let_def)
qed

lemma synced_ranged_run:
  assumes "synced m (of_int M) s" and "ranged (of_int M) s" and "0 < m" and "0 < M"
  shows "synced m (of_int M) (run s evs) \<and> ranged (of_int M) (run s evs)"
proof (rule run_invariant [where P = "\<lambda>t. synced m (of_int M) t \<and> ranged (of_int M) t"])
  show "synced m (of_int M) s \<and> ranged (of_int M) s" using assms by simp
next
  fix t x assume "synced m (of_int M) t \<and> ranged (of_int M) t"
  then show "synced m (of_int M) (startDrag x t) \<and> ranged (of_int M) (startDrag x t)"
    by (simp add: synced_startDrag) (simp add: ranged_def startDrag_def)
next
  fix t x assume "synced m (of_int M) t \<and> ranged (of_int M) t" and "0 < listeners t"
  with assms(3,4) show "synced m (of_int M) (drag x t) \<and> ranged (of_int M) (drag x t)"
    by (auto intro: synced_drag ranged_drag)
next
  fix t assume "synced m (of_int M) t \<and> ranged (of_int M) t"
  then show "synced m (of_int M) (drop_l t) \<and> ranged (of_int M) (drop_l t)"
    by (simp add: synced_drop_l) (simp add: ranged_def drop_l_def)
qed

lemma maxValue_fold_setValue: "maxValue (fold setValue vs c) = maxValue c"
  by (induction vs arbitrary: c) (simp_all add: setValue_def)

lemma maxValue_run: "maxValue (ctx (run s evs)) = maxValue (ctx s)"
proof -
  have "maxValue (ctx (run s evs)) = maxValue (ctx s)"
    by (rule run_invariant [where P = "\<lambda>t. maxValue (ctx t) = maxValue (ctx s)"])
      (simp_all add: startDrag_def drag_def drop_l_def setValue_def Let_def)
  then show ?thesis .
qed

lemma listeners_drags [simp]: "listeners ((drag x ^^ k) s) = listeners s"
  by (induction k) simp_all

lemma listeners_drops: "listeners ((drop_l ^^ k) s) = listeners s - k"
  by (induction k) (simp_all add: drop_l_def)

lemma length_emitted_drag:
  "length (emitted (calls (drag x s))) \<le> Suc (length (emitted (calls s)))"
  by (simp add: drag_def Let_def)

lemma length_emitted_drags:
  "length (emitted (calls ((drag x ^^ k) s))) \<le> length (emitted (calls s)) + k"
proof (induction k)
  case 0
  show ?case by simp
next
  case (Suc k)
  have "length (emitted (calls (drag x ((drag x ^^ k) s))))
      \<le> Suc (length (emitted (calls ((drag x ^^ k) s))))"
    by (rule length_emitted_drag)
  with Suc show ?case by simp
qed

lemmas eval_defs = run_def initialize_def mount_def SliderProvider_def startDrag_def
  drag_def drop_l_def setValue_def Let_def

section \<open>Moves that land on a position of a whole number\<close>

lemma drag_noop:
  assumes "left (dragData s) = Fin l" and "max_d (dragData s) = Fin m"
    and "offset (dragData s) = Fin off" and "l = max 0 (min (x + off) m)"
  shows "drag x s = s"
  using assms by (simp add: drag_def Let_def)

lemma funpow_fixed:
  assumes "f t = t"
  shows "(f ^^ k) t = t"
  using assms by (induction k) simp_all

lemma drags_settle:
  assumes "0 < k" and "drag x (drag x s) = drag x s"
  shows "(drag x ^^ k) s = drag x s"
proof -
  from assms(1) obtain j where k: "k = Suc j" by (cases k) simp_all
  have "(drag x ^^ Suc j) s = (drag x ^^ j) (drag x s)"
    by (simp add: funpow_swap1)
  also have "\<dots> = drag x s"
    by (rule funpow_fixed) (rule assms(2))
  finally show ?thesis by (simp add: k)
qed

lemma drag_on_grid:
  assumes sy: "synced m mv s" and off: "offset (dragData s) = Fin off"
    and m0: "m \<noteq> 0" and mv0: "mv \<noteq> 0"
    and cl: "max 0 (min (x + off) m) = m * of_int q / mv"
  shows "value_s (ctx (drag x s)) = Fin (of_int q)
     \<and> left_st (drag x s) = Fin (m * of_int q / mv)
     \<and> emitted (calls (drag x s)) =
           emitted (calls s) @ (if left_st s = Fin (m * of_int q / mv) then [] else [Fin (of_int q)])
     \<and> drag x (drag x s) = drag x s"
proof -
  from sy obtain v where
    mx: "max_d (dragData s) = Fin m" and mvs: "maxValue (ctx s) = Fin mv"
    and v: "value_s (ctx s) = Fin v" and l: "left (dragData s) = Fin (m * v / mv)"
    and ls: "left_st s = Fin (m * v / mv)"
    by (auto simp: synced_def)
  let ?n = "m * of_int q / mv"
  have undo: "?n / m * mv = of_int q" using m0 mv0 by simp
  have rd: "round (?n / m * mv) = q" by (simp only: undo round_of_int)
  show ?thesis
  proof (cases "m * v / mv = ?n")
    case True
    with m0 mv0 have vq: "v = of_int q" by simp
    have "drag x s = s"
    proof (rule drag_noop [where l = "m * v / mv" and m = m and off = off])
      show "m * v / mv = max 0 (min (x + off) m)" unfolding cl by (rule True)
    qed (rule l mx off)+
    with v vq ls True show ?thesis by simp
  next
    case False
    have d: "drag x s =
        s\<lparr>ctx := (ctx s)\<lparr>value_s := Fin (of_int q)\<rparr>,
          dragData := (dragData s)\<lparr>left := Fin ?n\<rparr>,
          left_st := Fin ?n,
          calls := calls s @ [SetValue (Fin (of_int q)), SetLeft (Fin ?n)]\<rparr>"
      unfolding drag_Fin [OF l mx off mvs m0] Let_def cl rd
      using False mv0 by simp
    have "drag x (drag x s) = drag x s"
      by (rule drag_noop [where l = ?n and m = m and off = off])
        (simp_all add: d mx off cl)
    with d ls False show ?thesis by simp
  qed
qed

section \<open>A thumb wider than the track\<close>

lemma drag_negative_travel:
  assumes sy: "synced m mv s" and pos: "0 < listeners s" and m: "m < 0" and mv0: "mv \<noteq> 0"
  shows "synced m mv (drag x s) \<and> left_st (drag x s) = Fin 0"
proof -
  from sy pos obtain off where off: "offset (dragData s) = Fin off"
    by (auto simp: synced_def)
  from m have m0: "m \<noteq> 0" by simp
  from m have "max 0 (min (x + off) m) = m * of_int 0 / mv" by simp
  from drag_on_grid [OF sy off m0 mv0 this] synced_drag [OF sy pos mv0]
  show ?thesis by simp
qed

lemma rest_at_zero_run:
  assumes "synced m mv s \<and> left_st s = Fin 0" and m: "m < 0" and mv0: "mv \<noteq> 0"
  shows "synced m mv (run s evs) \<and> left_st (run s evs) = Fin 0"
proof (rule run_invariant [where P = "\<lambda>t. synced m mv t \<and> left_st t = Fin 0"])
  show "synced m mv s \<and> left_st s = Fin 0" by (rule assms(1))
next
  fix t x assume "synced m mv t \<and> left_st t = Fin 0"
  then show "synced m mv (startDrag x t) \<and> left_st (startDrag x t) = Fin 0"
    by (simp add: synced_startDrag) (simp add: startDrag_def)
next
  fix t x assume "synced m mv t \<and> left_st t = Fin 0" and "0 < listeners t"
  then show "synced m mv (drag x t) \<and> left_st (drag x t) = Fin 0"
    using m mv0 by (intro drag_negative_travel) simp_all
next
  fix t assume "synced m mv t \<and> left_st t = Fin 0"
  then show "synced m mv (drop_l t) \<and> left_st (drop_l t) = Fin 0"
    by (simp add: synced_drop_l) (simp add: drop_l_def)
qed

section \<open>Finite numbers only\<close>

lemma is_Fin_iff: "is_Fin v \<longleftrightarrow> (\<exists>q. v = Fin q)"
  by (cases v) simp_all

lemma finite_calls_drag:
  assumes sy: "synced m mv s" and pos: "0 < listeners s" and mv0: "mv \<noteq> 0"
    and fc: "list_all (\<lambda>c. is_Fin (call_arg c)) (calls s)"
  shows "list_all (\<lambda>c. is_Fin (call_arg c)) (calls (drag x s))"
proof -
  from sy pos obtain v off where
    mx: "max_d (dragData s) = Fin m" and mvs: "maxValue (ctx s) = Fin mv"
    and l: "left (dragData s) = Fin (m * v / mv)" and off: "offset (dragData s) = Fin off"
    by (auto simp: synced_def)
  show ?thesis
  proof (cases "m = 0")
    case True
    with mx l off have "drag x s = s" by (simp add: drag_Fin0)
    with fc show ?thesis by simp
  next
    case False
    show ?thesis
      unfolding drag_Fin [OF l mx off mvs False]
      using fc mv0 by (simp add: Let_def)
  qed
qed

text \<open>
  With the store of \<open>SliderProvider\<close>, whatever the two measured widths and whatever
  the events, \<open>maxValue\<close> stays 100 and, in exact arithmetic, the number in the store,
  the offset of the thumb and the argument of every setter call are finite.
\<close>

lemma provider_store_finite:
  "maxValue SliderProvider = Fin 100
   \<and> maxValue (ctx (run (initialize sliderWidth width (mount SliderProvider)) evs)) = Fin 100
   \<and> is_Fin (value_s (ctx (run (initialize sliderWidth width (mount SliderProvider)) evs)))
   \<and> is_Fin (left_st (run (initialize sliderWidth width (mount SliderProvider)) evs))
   \<and> list_all (\<lambda>c. is_Fin (call_arg c))
        (calls (run (initialize sliderWidth width (mount SliderProvider)) evs))"
proof -
  let ?s0 = "initialize sliderWidth width (mount SliderProvider)"
  let ?m = "sliderWidth - width"
  let ?P = "\<lambda>t. synced ?m 100 t \<and> list_all (\<lambda>c. is_Fin (call_arg c)) (calls t)"
  have p: "maxValue SliderProvider = Fin 100" "value_s SliderProvider = Fin 50"
    by (simp_all add: SliderProvider_def)
  have "synced ?m 100 ?s0" using p by (rule synced_initialize) simp
  moreover have "list_all (\<lambda>c. is_Fin (call_arg c)) (calls ?s0)"
    by (simp add: initialize_def mount_def Let_def p)
  ultimately have init: "?P ?s0" by simp
  have "?P (run ?s0 evs)"
  proof (rule run_invariant [where P = ?P])
    show "?P ?s0" by (rule init)
  next
    fix t x assume "?P t"
    then show "?P (startDrag x t)"
      by (simp add: synced_startDrag) (simp add: startDrag_def)
  next
    fix t x assume "?P t" and "0 < listeners t"
    then show "?P (drag x t)"
      by (auto intro: synced_drag finite_calls_drag [where m = ?m and mv = 100])
  next
    fix t assume "?P t"
    then show "?P (drop_l t)"
      by (simp add: synced_drop_l) (simp add: drop_l_def)
  qed
  then show ?thesis
    by (auto simp: synced_def p)
qed

section \<open>Runs of move events\<close>

lemma reading_mono:
  assumes "0 < m" and "0 < mv" and "x \<le> y"
  shows "reading off m mv x \<le> reading off m mv y"
proof -
  have "max 0 (min (x + off) m) \<le> max 0 (min (y + off) m)"
    using assms(3) by (simp add: max_def min_def)
  then have "max 0 (min (x + off) m) / m \<le> max 0 (min (y + off) m) / m"
    using assms(1) by (simp add: divide_right_mono)
  then have "max 0 (min (x + off) m) / m * mv \<le> max 0 (min (y + off) m) / m * mv"
    using assms(2) by (intro mult_right_mono) simp_all
  then show ?thesis unfolding reading_def by (rule round_mono)
qed

lemma steady_drag:
  assumes st: "steady off m mv s" and m0: "m \<noteq> 0" and mv0: "mv \<noteq> 0"
  shows "steady off m mv (drag x s)
    \<and> (\<exists>j. emitted (calls (drag x s)) =
          emitted (calls s) @ replicate j (Fin (of_int (reading off m mv x))))"
proof -
  from st obtain l where
    off: "offset (dragData s) = Fin off" and mx: "max_d (dragData s) = Fin m"
    and mvs: "maxValue (ctx s) = Fin mv" and l: "left (dragData s) = Fin l"
    by (auto simp: steady_def is_Fin_iff)
  show ?thesis
  proof (cases "l = max 0 (min (x + off) m)")
    case True
    with l mx off have "drag x s = s" by (intro drag_noop)
    moreover have "emitted (calls s) =
        emitted (calls s) @ replicate 0 (Fin (of_int (reading off m mv x)))" by simp
    ultimately show ?thesis using st by metis
  next
    case False
    have "emitted (calls (drag x s)) =
        emitted (calls s) @ replicate 1 (Fin (of_int (reading off m mv x)))"
      unfolding drag_Fin [OF l mx off mvs m0]
      using False by (simp add: Let_def reading_def)
    moreover have "steady off m mv (drag x s)"
      unfolding drag_Fin [OF l mx off mvs m0]
      using False st mv0 by (simp add: Let_def steady_def)
    ultimately show ?thesis by blast
  qed
qed

lemma steady_drags:
  assumes st: "steady off m mv s" and m0: "m \<noteq> 0" and mv0: "mv \<noteq> 0"
  shows "steady off m mv ((drag x ^^ k) s)
    \<and> (\<exists>j. emitted (calls ((drag x ^^ k) s)) =
          emitted (calls s) @ replicate j (Fin (of_int (reading off m mv x))))"
proof (induction k)
  case 0
  have "emitted (calls s) =
      emitted (calls s) @ replicate 0 (Fin (of_int (reading off m mv x)))" by simp
  with st show ?case by (metis funpow_0)
next
  case (Suc k)
  let ?t = "(drag x ^^ k) s"
  from Suc obtain j where stt: "steady off m mv ?t"
    and j: "emitted (calls ?t) = emitted (calls s) @ replicate j (Fin (of_int (reading off m mv x)))"
    by blast
  from steady_drag [OF stt m0 mv0, where x = x] obtain i where
    st': "steady off m mv (drag x ?t)"
    and i: "emitted (calls (drag x ?t)) =
        emitted (calls ?t) @ replicate i (Fin (of_int (reading off m mv x)))"
    by blast
  from i j have "emitted (calls (drag x ?t)) =
      emitted (calls s) @ replicate (j + i) (Fin (of_int (reading off m mv x)))"
    by (simp add: replicate_add)
  then have "\<exists>j'. emitted (calls (drag x ?t)) =
      emitted (calls s) @ replicate j' (Fin (of_int (reading off m mv x)))" ..
  with st' show ?case by simp
qed

lemma moves_emit_sorted:
  assumes "steady off m mv s" and "0 < m" and "0 < mv"
    and "sorted xs" and "\<forall>x\<in>set xs. lo \<le> x"
  shows "\<exists>zs. emitted (calls (run s (map MouseMove xs))) =
            emitted (calls s) @ map (\<lambda>z. Fin (of_int z)) zs
          \<and> sorted zs \<and> (\<forall>z\<in>set zs. reading off m mv lo \<le> z)"
  using assms(1,4,5)
proof (induction xs arbitrary: s lo)
  case Nil
  have "emitted (calls (run s (map MouseMove []))) =
      emitted (calls s) @ map (\<lambda>z. Fin (of_int z)) []" by (simp add: run_def)
  then show ?case by (metis sorted_wrt.simps(1) list.set(1) empty_iff)
next
  case (Cons x xs)
  let ?t = "dispatch s (MouseMove x)"
  let ?r = "reading off m mv"
  from assms(2,3) have m0: "m \<noteq> 0" and mv0: "mv \<noteq> 0" by simp_all
  from steady_drags [OF Cons.prems(1) m0 mv0, where x = x and k = "listeners s"] obtain j where
    stt: "steady off m mv ?t"
    and j: "emitted (calls ?t) = emitted (calls s) @ replicate j (Fin (of_int (?r x)))"
    by auto
  from Cons.prems(2) have sx: "sorted xs" and ge: "\<forall>y\<in>set xs. x \<le> y" by simp_all
  from Cons.IH [OF stt sx ge] obtain zs where
    zs: "emitted (calls (run ?t (map MouseMove xs))) =
           emitted (calls ?t) @ map (\<lambda>z. Fin (of_int z)) zs"
    and szs: "sorted zs" and lzs: "\<forall>z\<in>set zs. ?r x \<le> z"
    by blast
  from Cons.prems(3) have "lo \<le> x" by simp
  with assms(2,3) have lox: "?r lo \<le> ?r x" by (intro reading_mono)
  have run: "run s (map MouseMove (x # xs)) = run ?t (map MouseMove xs)"
    by (simp add: run_def)
  have "emitted (calls (run s (map MouseMove (x # xs)))) =
      emitted (calls s) @ map (\<lambda>z. Fin (of_int z)) (replicate j (?r x) @ zs)"
    unfolding run zs j by simp
  moreover have "sorted (replicate j (?r x) @ zs)"
    using szs lzs by (simp add: sorted_append)
  moreover have "\<forall>z\<in>set (replicate j (?r x) @ zs). ?r lo \<le> z"
    using lzs lox by auto
  ultimately show ?case by blast
qed

lemma sorted_wrt_jle_Fin:
  assumes "sorted (zs :: int list)"
  shows "sorted_wrt jle (map (\<lambda>z. Fin (of_int z)) zs)"
  using assms by (induction zs) auto

section \<open>Rounded arithmetic\<close>

text \<open>
  The exponent that \<open>fl64\<close> uses is the binary exponent, and the significand it
  picks is a nearest whole number.
\<close>

lemma bitlen_powi_bounds:
  assumes "0 < p"
  shows "(2::rat) powi (bitlen p - 1) \<le> of_int p" and "of_int p < (2::rat) powi bitlen p"
proof -
  from assms have b1: "1 \<le> bitlen p" by (simp add: bitlen_alt_def)
  from bitlen_bounds [OF assms] have lo: "2 ^ nat (bitlen p - 1) \<le> p" and hi: "p < 2 ^ nat (bitlen p)"
    by simp_all
  from lo have "rat_of_int (2 ^ nat (bitlen p - 1)) \<le> of_int p" by (simp only: of_int_le_iff)
  then show "(2::rat) powi (bitlen p - 1) \<le> of_int p"
    using b1 by (simp add: power_int_def)
  from hi have "rat_of_int p < of_int (2 ^ nat (bitlen p))" by (simp only: of_int_less_iff)
  then show "of_int p < (2::rat) powi bitlen p"
    using b1 by (simp add: power_int_def)
qed

lemma ilog2_bounds:
  assumes "0 < a"
  shows "2 powi ilog2 a \<le> a \<and> a < 2 powi (ilog2 a + 1)"
proof -
  obtain p q where pq: "quotient_of a = (p, q)" by (cases "quotient_of a")
  then have q: "0 < q" and a: "a = of_int p / of_int q"
    by (simp_all add: quotient_of_denom_pos quotient_of_div)
  with assms have p: "0 < p" by (simp add: zero_less_divide_iff)
  let ?d = "bitlen p - bitlen q"
  have qpos: "(0::rat) < of_int q" using q by simp
  have "a < 2 powi (?d + 1)"
  proof -
    have "of_int p < (2::rat) powi bitlen p" using p by (rule bitlen_powi_bounds)
    moreover have "(2::rat) powi (bitlen q - 1) \<le> of_int q" using q by (rule bitlen_powi_bounds)
    ultimately have "of_int p * 2 powi (bitlen q - 1) < (2::rat) powi bitlen p * of_int q"
      using qpos p by (intro mult_less_le_imp_less) simp_all
    then have "of_int p / of_int q < (2::rat) powi bitlen p / 2 powi (bitlen q - 1)"
      using qpos by (simp add: field_simps)
    also have "\<dots> = 2 powi (?d + 1)"
      by (simp add: power_int_diff power_int_add field_simps)
    finally show ?thesis by (simp add: a)
  qed
  moreover have "2 powi (?d - 1) \<le> a"
  proof -
    have "(2::rat) powi (bitlen p - 1) \<le> of_int p" using p by (rule bitlen_powi_bounds)
    moreover have "of_int q < (2::rat) powi bitlen q" using q by (rule bitlen_powi_bounds)
    ultimately have "(2::rat) powi (bitlen p - 1) * of_int q \<le> of_int p * 2 powi bitlen q"
      using qpos p by (intro mult_mono) simp_all
    then have "(2::rat) powi (bitlen p - 1) / 2 powi bitlen q \<le> of_int p / of_int q"
      using qpos by (simp add: field_simps)
    moreover have "(2::rat) powi (bitlen p - 1) / 2 powi bitlen q = 2 powi (?d - 1)"
      by (simp add: power_int_diff power_int_add field_simps)
    ultimately show ?thesis by (simp add: a)
  qed
  ultimately show ?thesis
    by (simp add: ilog2_def pq Let_def)
qed

lemma round_even_nearest: "\<bar>of_int (round_even y) - y\<bar> \<le> 1/2"
proof -
  have "of_int \<lfloor>y\<rfloor> \<le> y" "y < of_int \<lfloor>y\<rfloor> + 1" by linarith+
  then show ?thesis
    by (auto simp: round_even_def Let_def abs_le_iff)
qed

lemma rnd_exact [simp]: "rnd Fin x = x"
  by (cases x) simp_all

lemma exact_instances:
  "initialize_fl Fin = initialize" "startDrag_fl Fin = startDrag" "drag_fl Fin = drag"
  by (simp_all add: fun_eq_iff initialize_fl_def initialize_def startDrag_fl_def startDrag_def
      drag_fl_def drag_def fadd_def fsub_def fmul_def fdiv_def Let_def)

lemma fl64_not_NaN: "fl64 q \<noteq> NaN"
  by (simp add: fl64_def Let_def)

lemma clamp_finite:
  assumes "c \<noteq> NaN" and "0 < m"
  shows "\<exists>n. jmax (Fin 0) (jmin c (Fin m)) = Fin n \<and> 0 \<le> n \<and> n \<le> m"
  using assms by (cases c) (simp_all add: jmin_def jmax_def)

text \<open>
  The slider of the application (track 320, thumb 32) in binary64: pressed at 140,
  moved to 104, released, pressed at 140 again and moved to 32, it hands 38 and then
  0 to \<open>setValue\<close>.
\<close>

lemma binary64_shipped_trace:
  "emitted (calls (drag_fl fl64 32 (startDrag_fl fl64 140 (drop_l
     (drag_fl fl64 104 (startDrag_fl fl64 140
        (initialize_fl fl64 320 32 (mount SliderProvider)))))))) = [Fin 38, Fin 0]"
  by code_simp

section \<open>The move handler (C1)\<close>

text \<open>
  C1. A move event during a drag whose travel distance is positive, in the arithmetic
  of the program: every operator result is rounded by \<open>fl\<close>, which may be any
  rounding that never yields \<open>NaN\<close> (\<open>fl64\<close> is one). The handler adds the pointer
  offset to the pointer coordinate and clamps the sum by
  \<open>Math.max(0, Math.min(candidate, max))\<close>, which gives a finite offset between 0 and
  the travel distance, and compares it with the offset it recorded last. If they are
  equal nothing changes. Otherwise the new number is
  \<open>Math.round((nextLeft / max) * maxValue)\<close>, the offset is snapped to
  \<open>(max * value) / maxValue\<close>, the number is written to the store, and the snapped
  offset is recorded and written to the state variable the thumb is drawn from. The
  witness is a track of 232 with a thumb of 32, pressed at 100 and moved to 29 in
  binary64: the product is 14.499999999999998, the number written is 14 and the
  offset 28.
\<close>

theorem C1_drag_step:
  assumes "left (dragData s) = Fin l"
    and "max_d (dragData s) = Fin maxTravel"
    and "offset (dragData s) = Fin pointerOffset"
    and "maxValue (ctx s) = Fin mv"
    and "0 < maxTravel"
    and "\<And>q. fl q \<noteq> NaN"
  shows "\<exists>nextLeft.
      jmax (Fin 0) (jmin (fadd fl (Fin pointerX) (Fin pointerOffset)) (Fin maxTravel))
        = Fin nextLeft
    \<and> 0 \<le> nextLeft \<and> nextLeft \<le> maxTravel
    \<and> drag_fl fl pointerX s =
        (if l = nextLeft then s
         else let v = jround (fmul fl (fdiv fl (Fin nextLeft) (Fin maxTravel)) (Fin mv));
                  resnapped = fdiv fl (fmul fl (Fin maxTravel) v) (Fin mv)
              in s\<lparr>ctx := (ctx s)\<lparr>value_s := v\<rparr>,
                    dragData := (dragData s)\<lparr>left := resnapped\<rparr>,
                    left_st := resnapped,
                    calls := calls s @ [SetValue v, SetLeft resnapped]\<rparr>)"
proof -
  have "fadd fl (Fin pointerX) (Fin pointerOffset) \<noteq> NaN"
    by (simp add: fadd_def assms(6))
  from clamp_finite [OF this assms(5)] obtain n where
    n: "jmax (Fin 0) (jmin (fadd fl (Fin pointerX) (Fin pointerOffset)) (Fin maxTravel)) = Fin n"
    and b: "0 \<le> n" "n \<le> maxTravel" by blast
  have "drag_fl fl pointerX s =
        (if l = n then s
         else let v = jround (fmul fl (fdiv fl (Fin n) (Fin maxTravel)) (Fin mv));
                  resnapped = fdiv fl (fmul fl (Fin maxTravel) v) (Fin mv)
              in s\<lparr>ctx := (ctx s)\<lparr>value_s := v\<rparr>,
                    dragData := (dragData s)\<lparr>left := resnapped\<rparr>,
                    left_st := resnapped,
                    calls := calls s @ [SetValue v, SetLeft resnapped]\<rparr>)"
    by (simp add: drag_fl_def assms(1-4) n Let_def setValue_def)
  with n b show ?thesis by blast
qed

theorem C1_drag_step_witness:
  "left (dragData (startDrag_fl fl64 100 (initialize_fl fl64 232 32 (mount SliderProvider))))
     = Fin 100
   \<and> max_d (dragData (startDrag_fl fl64 100 (initialize_fl fl64 232 32 (mount SliderProvider))))
     = Fin 200
   \<and> offset (dragData (startDrag_fl fl64 100 (initialize_fl fl64 232 32 (mount SliderProvider))))
     = Fin 0
   \<and> maxValue (ctx (startDrag_fl fl64 100 (initialize_fl fl64 232 32 (mount SliderProvider))))
     = Fin 100
   \<and> (0::rat) < 200 \<and> (\<forall>q. fl64 q \<noteq> NaN)
   \<and> jmax (Fin 0) (jmin (fadd fl64 (Fin 29) (Fin 0)) (Fin 200)) = Fin 29
   \<and> fmul fl64 (fdiv fl64 (Fin 29) (Fin 200)) (Fin 100)
       = Fin (8162774324609023 / 562949953421312)
   \<and> jround (fmul fl64 (fdiv fl64 (Fin 29) (Fin 200)) (Fin 100)) = Fin 14
   \<and> fdiv fl64 (fmul fl64 (Fin 200) (Fin 14)) (Fin 100) = Fin 28
   \<and> drag_fl fl64 29 (startDrag_fl fl64 100 (initialize_fl fl64 232 32 (mount SliderProvider))) =
       \<lparr>ctx = \<lparr>maxValue = Fin 100, value_s = Fin 14\<rparr>, left_st = Fin 28,
        dragData = \<lparr>left = Fin 28, max_d = Fin 200, offset = Fin 0\<rparr>,
        listeners = 1, calls = [SetLeft (Fin 100), SetValue (Fin 14), SetLeft (Fin 28)]\<rparr>"
proof -
  let ?S = "startDrag_fl fl64 100 (initialize_fl fl64 232 32 (mount SliderProvider))"
  have S: "?S =
     \<lparr>ctx = \<lparr>maxValue = Fin 100, value_s = Fin 50\<rparr>, left_st = Fin 100,
      dragData = \<lparr>left = Fin 100, max_d = Fin 200, offset = Fin 0\<rparr>,
      listeners = 1, calls = [SetLeft (Fin 100)]\<rparr>"
    by code_simp
  have e1: "jmax (Fin 0) (jmin (fadd fl64 (Fin 29) (Fin 0)) (Fin 200)) = Fin 29"
    by code_simp
  have e2: "fmul fl64 (fdiv fl64 (Fin 29) (Fin 200)) (Fin 100)
      = Fin (8162774324609023 / 562949953421312)"
    by code_simp
  have e3: "jround (Fin (8162774324609023 / 562949953421312)) = Fin 14"
    by (simp add: round_eq_iff)
  have e4: "fdiv fl64 (fmul fl64 (Fin 200) (Fin 14)) (Fin 100) = Fin 28"
    by code_simp
  have h: "left (dragData ?S) = Fin 100" "max_d (dragData ?S) = Fin 200"
    "offset (dragData ?S) = Fin 0" "maxValue (ctx ?S) = Fin 100"
    by (simp_all add: S)
  have pos: "(0::rat) < 200" by simp
  from C1_drag_step [where fl = fl64 and pointerX = 29, OF h pos fl64_not_NaN] obtain n where
    n: "Fin 29 = Fin n"
    and d: "drag_fl fl64 29 ?S =
        (if 100 = n then ?S
         else let v = jround (fmul fl64 (fdiv fl64 (Fin n) (Fin 200)) (Fin 100));
                  resnapped = fdiv fl64 (fmul fl64 (Fin 200) v) (Fin 100)
              in ?S\<lparr>ctx := (ctx ?S)\<lparr>value_s := v\<rparr>,
                    dragData := (dragData ?S)\<lparr>left := resnapped\<rparr>,
                    left_st := resnapped,
                    calls := calls ?S @ [SetValue v, SetLeft resnapped]\<rparr>)"
    unfolding e1 by blast
  from n have n29: "n = 29" by simp
  have "drag_fl fl64 29 ?S =
       \<lparr>ctx = \<lparr>maxValue = Fin 100, value_s = Fin 14\<rparr>, left_st = Fin 28,
        dragData = \<lparr>left = Fin 28, max_d = Fin 200, offset = Fin 0\<rparr>,
        listeners = 1, calls = [SetLeft (Fin 100), SetValue (Fin 14), SetLeft (Fin 28)]\<rparr>"
    unfolding d n29 Let_def e2 e3 e4 by (simp add: S)
  with h e1 e2 e3 e4 fl64_not_NaN show ?thesis by simp
qed

section \<open>The range of the stored number (C2)\<close>

text \<open>
  C2. The store created by \<open>SliderProvider\<close> satisfies \<open>0 <= value <= maxValue\<close>.
  For every store that does and whose \<open>maxValue\<close> is a positive whole number (as the
  100 of \<open>SliderProvider\<close> is), every positive travel distance and every sequence of
  pointer events after initialization, the store satisfies it at the end, and so does
  every number that was handed to \<open>setValue\<close> on the way.
\<close>

theorem C2_value_in_range:
  assumes "maxValue c = Fin (of_int M)" and "0 < M"
    and "in_range (maxValue c) (value_s c)"
    and "0 < sliderWidth - width"
  shows "in_range (maxValue SliderProvider) (value_s SliderProvider)
    \<and> in_range (maxValue (ctx (run (initialize sliderWidth width (mount c)) evs)))
         (value_s (ctx (run (initialize sliderWidth width (mount c)) evs)))
    \<and> list_all (in_range (maxValue (ctx (run (initialize sliderWidth width (mount c)) evs))))
         (emitted (calls (run (initialize sliderWidth width (mount c)) evs)))"
proof -
  let ?s0 = "initialize sliderWidth width (mount c)"
  from assms(1,3) obtain v where v: "value_s c = Fin v"
    by (cases "value_s c") (simp_all add: in_range_def)
  from assms(2) have "rat_of_int M \<noteq> 0" by simp
  with assms(1) v have sy: "synced (sliderWidth - width) (of_int M) ?s0"
    by (intro synced_initialize)
  have ra: "ranged (of_int M) ?s0"
    using assms(1,3) by (simp add: ranged_def initialize_def mount_def Let_def)
  from synced_ranged_run [OF sy ra assms(4,2)]
  have "synced (sliderWidth - width) (of_int M) (run ?s0 evs)"
    and "ranged (of_int M) (run ?s0 evs)" by simp_all
  then have "in_range (maxValue (ctx (run ?s0 evs))) (value_s (ctx (run ?s0 evs)))"
    and "list_all (in_range (maxValue (ctx (run ?s0 evs)))) (emitted (calls (run ?s0 evs)))"
    by (simp_all add: synced_def ranged_def)
  moreover have "in_range (maxValue SliderProvider) (value_s SliderProvider)"
    by (simp add: SliderProvider_def in_range_def)
  ultimately show ?thesis by simp
qed

theorem C2_value_in_range_witness:
  "maxValue SliderProvider = Fin (of_int 100) \<and> (0::int) < 100
   \<and> in_range (maxValue SliderProvider) (value_s SliderProvider)
   \<and> (0::rat) < 320 - 32
   \<and> in_range (Fin 100)
        (value_s (ctx (run (initialize 320 32 (mount SliderProvider))
           [MouseDown 144, MouseMove 500, MouseMove 0, MouseUp])))
   \<and> list_all (in_range (Fin 100))
        (emitted (calls (run (initialize 320 32 (mount SliderProvider))
           [MouseDown 144, MouseMove 500, MouseMove 0, MouseUp])))
   \<and> emitted (calls (run (initialize 320 32 (mount SliderProvider))
           [MouseDown 144, MouseMove 500, MouseMove 0, MouseUp])) = [Fin 100, Fin 0]"
proof -
  have r: "run (initialize 320 32 (mount SliderProvider))
             [MouseDown 144, MouseMove 500, MouseMove 0, MouseUp] =
     \<lparr>ctx = \<lparr>maxValue = Fin 100, value_s = Fin 0\<rparr>, left_st = Fin 0,
      dragData = \<lparr>left = Fin 0, max_d = Fin 288, offset = Fin 0\<rparr>,
      listeners = 0,
      calls = [SetLeft (Fin 144), SetValue (Fin 100), SetLeft (Fin 288),
               SetValue (Fin 0), SetLeft (Fin 0)]\<rparr>"
    by (simp add: eval_defs)
  show ?thesis
    using C2_value_in_range [of SliderProvider 100 320 32
        "[MouseDown 144, MouseMove 500, MouseMove 0, MouseUp]"]
    by (simp add: in_range_def r) (simp add: SliderProvider_def)
qed

section \<open>Two move events at the same place (C3)\<close>

text \<open>
  C3. Two move events whose clamped offsets are the same should lead to one state
  update, the second event changing nothing. The handler compares the clamped offset
  with the offset it recorded, and what it records is the snapped offset, not the
  clamped one. Evaluated on the slider of the application (track 320, thumb 32,
  number 50 of 100), pressed at page coordinate 160 and moved twice to 165: both
  events have the clamped offset 149, the first records 149.76, and the second, finding
  149.76 different from 149, calls both setters again.
\<close>

theorem C3_repeated_move_updates_twice:
  "jmax (Fin 0) (jmin (jadd (Fin 165)
       (offset (dragData (startDrag 160 (initialize 320 32 (mount SliderProvider))))))
       (max_d (dragData (startDrag 160 (initialize 320 32 (mount SliderProvider)))))) = Fin 149
   \<and> jmax (Fin 0) (jmin (jadd (Fin 165)
       (offset (dragData (drag 165 (startDrag 160 (initialize 320 32 (mount SliderProvider)))))))
       (max_d (dragData (drag 165 (startDrag 160 (initialize 320 32 (mount SliderProvider))))))) = Fin 149
   \<and> calls (startDrag 160 (initialize 320 32 (mount SliderProvider))) = [SetLeft (Fin 144)]
   \<and> calls (drag 165 (startDrag 160 (initialize 320 32 (mount SliderProvider)))) =
       [SetLeft (Fin 144), SetValue (Fin 52), SetLeft (Fin (3744 / 25))]
   \<and> calls (drag 165 (drag 165 (startDrag 160 (initialize 320 32 (mount SliderProvider))))) =
       [SetLeft (Fin 144), SetValue (Fin 52), SetLeft (Fin (3744 / 25)),
        SetValue (Fin 52), SetLeft (Fin (3744 / 25))]"
  by (simp add: eval_defs round_3725_72)

section \<open>From a number to an offset and back (C4)\<close>



section \<open>Pointer moving to the right (C5)\<close>

text \<open>
  C5. With a positive travel distance and a positive \<open>maxValue\<close>, a sequence of move
  events whose pointer coordinates do not decrease hands to \<open>setValue\<close> a sequence of
  numbers that does not decrease, however many move listeners are registered.
\<close>

theorem C5_monotone_values:
  assumes "left (dragData s) = Fin l" and "max_d (dragData s) = Fin maxTravel"
    and "offset (dragData s) = Fin pointerOffset" and "maxValue (ctx s) = Fin mv"
    and "0 < maxTravel" and "0 < mv" and "sorted xs"
  shows "sorted_wrt jle
           (drop (length (emitted (calls s)))
                 (emitted (calls (run s (map MouseMove xs)))))"
proof -
  have st: "steady pointerOffset maxTravel mv s"
    using assms(1-4) by (simp add: steady_def)
  obtain lo where lo: "\<forall>x\<in>set xs. lo \<le> x"
  proof (cases xs)
    case Nil
    then have "\<forall>x\<in>set xs. 0 \<le> x" by simp
    then show ?thesis by (rule that)
  next
    case (Cons y ys)
    with assms(7) have "\<forall>x\<in>set xs. y \<le> x" by auto
    then show ?thesis by (rule that)
  qed
  from moves_emit_sorted [OF st assms(5,6,7) lo] obtain zs where
    zs: "emitted (calls (run s (map MouseMove xs))) =
           emitted (calls s) @ map (\<lambda>z. Fin (of_int z)) zs"
    and szs: "sorted zs" by blast
  from szs have "sorted_wrt jle (map (\<lambda>z. Fin (of_int z)) zs)"
    by (rule sorted_wrt_jle_Fin)
  then show ?thesis unfolding zs by simp
qed

theorem C5_monotone_values_witness:
  "left (dragData (run (initialize 320 32 (mount SliderProvider)) [MouseDown 144])) = Fin 144
   \<and> max_d (dragData (run (initialize 320 32 (mount SliderProvider)) [MouseDown 144])) = Fin 288
   \<and> offset (dragData (run (initialize 320 32 (mount SliderProvider)) [MouseDown 144])) = Fin 0
   \<and> maxValue (ctx (run (initialize 320 32 (mount SliderProvider)) [MouseDown 144])) = Fin 100
   \<and> (0::rat) < 288 \<and> (0::rat) < 100 \<and> sorted [0, 144, 144, 288 :: rat]
   \<and> emitted (calls (run (run (initialize 320 32 (mount SliderProvider)) [MouseDown 144])
        (map MouseMove [0, 144, 144, 288]))) = [Fin 0, Fin 50, Fin 100]
   \<and> sorted_wrt jle [Fin 0, Fin 50, Fin 100]"
proof -
  let ?s = "run (initialize 320 32 (mount SliderProvider)) [MouseDown 144]"
  have s: "?s =
     \<lparr>ctx = \<lparr>maxValue = Fin 100, value_s = Fin 50\<rparr>, left_st = Fin 144,
      dragData = \<lparr>left = Fin 144, max_d = Fin 288, offset = Fin 0\<rparr>,
      listeners = 1, calls = [SetLeft (Fin 144)]\<rparr>"
    by (simp add: eval_defs)
  have e: "emitted (calls (run ?s (map MouseMove [0, 144, 144, 288]))) = [Fin 0, Fin 50, Fin 100]"
    unfolding s by (simp add: eval_defs)
  from C5_monotone_values [of ?s 144 288 0 100 "[0, 144, 144, 288]"]
  show ?thesis unfolding e by (simp add: s)
qed

section \<open>The two ends of the track (C6)\<close>

text \<open>
  C6. On a slider that was initialized with a positive travel distance and a store
  whose \<open>maxValue\<close> is a positive whole number, and then received any events, a move
  event during a drag whose candidate offset is at most 0 leaves the number 0 in the
  store and the thumb at 0, and a move event whose candidate offset is at least the
  travel distance leaves \<open>maxValue\<close> in the store and the thumb at the travel
  distance; what is handed to \<open>setValue\<close> by the event is that number, once, or
  nothing if the thumb is at that end already. The witness is the scenario of the
  specification: track 320, thumb 32, 50 of 100, candidate offsets 288 and -50.
\<close>

theorem C6_boundaries:
  assumes "maxValue c = Fin (of_int M)" and "0 < M" and "value_s c = Fin v"
    and "0 < sliderWidth - width"
    and "s = run (initialize sliderWidth width (mount c)) evs"
    and "0 < listeners s" and "offset (dragData s) = Fin pointerOffset"
  shows "(pageX + pointerOffset \<le> 0 \<longrightarrow>
            value_s (ctx (dispatch s (MouseMove pageX))) = Fin 0
          \<and> left_st (dispatch s (MouseMove pageX)) = Fin 0
          \<and> emitted (calls (dispatch s (MouseMove pageX))) =
               emitted (calls s) @ (if left_st s = Fin 0 then [] else [Fin 0]))
       \<and> (sliderWidth - width \<le> pageX + pointerOffset \<longrightarrow>
            value_s (ctx (dispatch s (MouseMove pageX))) = maxValue c
          \<and> left_st (dispatch s (MouseMove pageX)) = Fin (sliderWidth - width)
          \<and> emitted (calls (dispatch s (MouseMove pageX))) =
               emitted (calls s) @
                 (if left_st s = Fin (sliderWidth - width) then [] else [maxValue c]))"
proof -
  let ?m = "sliderWidth - width"
  from assms(2) have mv0: "rat_of_int M \<noteq> 0" by simp
  from assms(4) have m0: "?m \<noteq> 0" by simp
  have "synced ?m (of_int M) (initialize sliderWidth width (mount c))"
    using assms(1,3) mv0 by (rule synced_initialize)
  then have sy: "synced ?m (of_int M) s"
    unfolding assms(5) using mv0 by (rule synced_run)
  have settle: "dispatch s (MouseMove pageX) = drag pageX s"
    if "drag pageX (drag pageX s) = drag pageX s"
    using assms(6) that by (simp add: drags_settle)
  have lower: "value_s (ctx (dispatch s (MouseMove pageX))) = Fin 0
          \<and> left_st (dispatch s (MouseMove pageX)) = Fin 0
          \<and> emitted (calls (dispatch s (MouseMove pageX))) =
               emitted (calls s) @ (if left_st s = Fin 0 then [] else [Fin 0])"
    if "pageX + pointerOffset \<le> 0"
  proof -
    from that assms(4) have "max 0 (min (pageX + pointerOffset) ?m) = ?m * of_int 0 / of_int M"
      by simp
    from drag_on_grid [OF sy assms(7) m0 mv0 this] settle show ?thesis by simp
  qed
  have upper: "value_s (ctx (dispatch s (MouseMove pageX))) = maxValue c
          \<and> left_st (dispatch s (MouseMove pageX)) = Fin ?m
          \<and> emitted (calls (dispatch s (MouseMove pageX))) =
               emitted (calls s) @ (if left_st s = Fin ?m then [] else [maxValue c])"
    if "?m \<le> pageX + pointerOffset"
  proof -
    from that assms(4) mv0
    have "max 0 (min (pageX + pointerOffset) ?m) = ?m * of_int M / of_int M"
      by simp
    from drag_on_grid [OF sy assms(7) m0 mv0 this] settle mv0 assms(1) show ?thesis by simp
  qed
  from lower upper show ?thesis by blast
qed

theorem C6_boundaries_witness:
  "maxValue SliderProvider = Fin (of_int 100) \<and> (0::int) < 100
   \<and> value_s SliderProvider = Fin 50 \<and> (0::rat) < 320 - 32
   \<and> 0 < listeners (run (initialize 320 32 (mount SliderProvider)) [MouseDown 144])
   \<and> offset (dragData (run (initialize 320 32 (mount SliderProvider)) [MouseDown 144])) = Fin 0
   \<and> left_st (run (initialize 320 32 (mount SliderProvider)) [MouseDown 144]) = Fin 144
   \<and> (320::rat) - 32 \<le> 288 + 0
   \<and> value_s (ctx (dispatch (run (initialize 320 32 (mount SliderProvider)) [MouseDown 144])
         (MouseMove 288))) = Fin 100
   \<and> left_st (dispatch (run (initialize 320 32 (mount SliderProvider)) [MouseDown 144])
         (MouseMove 288)) = Fin 288
   \<and> emitted (calls (dispatch (run (initialize 320 32 (mount SliderProvider)) [MouseDown 144])
         (MouseMove 288))) = [Fin 100]
   \<and> (- 50::rat) + 0 \<le> 0
   \<and> value_s (ctx (dispatch (run (initialize 320 32 (mount SliderProvider)) [MouseDown 144])
         (MouseMove (- 50)))) = Fin 0
   \<and> left_st (dispatch (run (initialize 320 32 (mount SliderProvider)) [MouseDown 144])
         (MouseMove (- 50))) = Fin 0
   \<and> emitted (calls (dispatch (run (initialize 320 32 (mount SliderProvider)) [MouseDown 144])
         (MouseMove (- 50)))) = [Fin 0]"
proof -
  let ?s = "run (initialize 320 32 (mount SliderProvider)) [MouseDown 144]"
  have p: "maxValue SliderProvider = Fin 100" "value_s SliderProvider = Fin 50"
    by (simp_all add: SliderProvider_def)
  have s: "listeners ?s = 1" "offset (dragData ?s) = Fin 0" "left_st ?s = Fin 144"
    "emitted (calls ?s) = []"
    by (simp_all add: eval_defs)
  from C6_boundaries [of SliderProvider 100 50 320 32 ?s "[MouseDown 144]" 0 288]
    C6_boundaries [of SliderProvider 100 50 320 32 ?s "[MouseDown 144]" 0 "- 50"]
  show ?thesis by (simp add: p s)
qed

section \<open>A thumb wider than the track (C7)\<close>

text \<open>
  C7, as the code has it. When the thumb is wider than the track the travel distance
  is negative and is used as it is. Initialization puts the thumb at
  \<open>(trackWidth - thumbWidth) * value / maxValue\<close>, which is negative when the number
  and \<open>maxValue\<close> are positive. Every move event of a drag clamps to 0, so from the
  first such event on, whatever events follow, the thumb is at 0.
\<close>

theorem C7_negative_travel:
  assumes "maxValue c = Fin mv" and "mv \<noteq> 0" and "value_s c = Fin v"
    and "sliderWidth < width"
    and "s = run (initialize sliderWidth width (mount c)) evs"
    and "0 < listeners s"
  shows "left_st (initialize sliderWidth width (mount c))
           = Fin ((sliderWidth - width) * v / mv)
    \<and> left_st (run (dispatch s (MouseMove pageX)) evs') = Fin 0"
proof -
  let ?m = "sliderWidth - width"
  from assms(4) have m: "?m < 0" by simp
  have sy0: "synced ?m mv (initialize sliderWidth width (mount c))"
    using assms(1,3,2) by (rule synced_initialize)
  then have sy: "synced ?m mv s"
    unfolding assms(5) using assms(2) by (rule synced_run)
  from assms(6) obtain j where j: "listeners s = Suc j" by (cases "listeners s") simp_all
  have first: "synced ?m mv (drag pageX s) \<and> left_st (drag pageX s) = Fin 0"
    using sy assms(6) m assms(2) by (rule drag_negative_travel)
  have "synced ?m mv ((drag pageX ^^ j) (drag pageX s))
      \<and> left_st ((drag pageX ^^ j) (drag pageX s)) = Fin 0"
  proof (rule drags_invariant [where P = "\<lambda>t. synced ?m mv t \<and> left_st t = Fin 0"])
    show "synced ?m mv (drag pageX s) \<and> left_st (drag pageX s) = Fin 0" by (rule first)
    show "0 < listeners (drag pageX s)" using assms(6) by simp
    fix t assume "synced ?m mv t \<and> left_st t = Fin 0" and "0 < listeners t"
    then show "synced ?m mv (drag pageX t) \<and> left_st (drag pageX t) = Fin 0"
      using m assms(2) by (intro drag_negative_travel) simp_all
  qed
  moreover have "dispatch s (MouseMove pageX) = (drag pageX ^^ j) (drag pageX s)"
    by (simp add: j funpow_swap1)
  ultimately have "synced ?m mv (dispatch s (MouseMove pageX))
      \<and> left_st (dispatch s (MouseMove pageX)) = Fin 0" by simp
  from rest_at_zero_run [OF this m assms(2)]
  have "left_st (run (dispatch s (MouseMove pageX)) evs') = Fin 0" by simp
  moreover from sy0 assms(3) have "left_st (initialize sliderWidth width (mount c))
           = Fin (?m * v / mv)"
    by (simp add: initialize_def mount_def Let_def assms(1,2))
  ultimately show ?thesis by simp
qed

theorem C7_negative_travel_witness:
  "maxValue SliderProvider = Fin 100 \<and> (100::rat) \<noteq> 0 \<and> value_s SliderProvider = Fin 50
   \<and> (20::rat) < 32
   \<and> 0 < listeners (run (initialize 20 32 (mount SliderProvider)) [MouseDown 7])
   \<and> left_st (initialize 20 32 (mount SliderProvider)) = Fin (- 6)
   \<and> left_st (run (initialize 20 32 (mount SliderProvider)) [MouseDown 7]) = Fin (- 6)
   \<and> left_st (run (dispatch (run (initialize 20 32 (mount SliderProvider)) [MouseDown 7])
         (MouseMove 9)) [MouseMove 30, MouseUp]) = Fin 0"
proof -
  let ?s = "run (initialize 20 32 (mount SliderProvider)) [MouseDown 7]"
  have p: "maxValue SliderProvider = Fin 100" "value_s SliderProvider = Fin 50"
    by (simp_all add: SliderProvider_def)
  have s: "listeners ?s = 1" "left_st ?s = Fin (- 6)"
    by (simp_all add: eval_defs)
  from C7_negative_travel [of SliderProvider 100 50 20 32 ?s "[MouseDown 7]" 9
      "[MouseMove 30, MouseUp]"]
  show ?thesis by (simp add: p s)
qed

text \<open>
  C7 as stated fails after initialization: with a track of 20 and a thumb of 32 the
  slider of the application starts with its thumb at -6.
\<close>

theorem C7_initial_offset_counterexample:
  "(20::rat) - 32 < 0 \<and> left_st (initialize 20 32 (mount SliderProvider)) = Fin (- 6)
   \<and> left_st (initialize 20 32 (mount SliderProvider)) \<noteq> Fin 0"
  by (simp add: eval_defs)

section \<open>Listeners (C9)\<close>

text \<open>
  C9, as the code has it. Every \<open>mousedown\<close> on the thumb registers one more move
  listener, whether or not one is registered already; a \<open>mousemove\<close> leaves the
  number of listeners as it is, runs each of them, and so calls \<open>setValue\<close> at most
  once per registered listener; a \<open>mouseup\<close> removes them all.
\<close>

theorem C9_listeners_accumulate:
  "listeners (dispatch s (MouseDown pageX)) = Suc (listeners s)
   \<and> listeners (dispatch s (MouseMove pageX)) = listeners s
   \<and> listeners (dispatch s MouseUp) = 0
   \<and> length (emitted (calls (dispatch s (MouseMove pageX))))
        \<le> length (emitted (calls s)) + listeners s"
  by (simp add: listeners_drops length_emitted_drags) (simp add: startDrag_def)

text \<open>
  C9 as stated fails: after a second \<open>mousedown\<close> without a \<open>mouseup\<close> in between
  two move listeners are registered, and one move event calls \<open>setValue\<close> twice.
\<close>

theorem C9_second_mousedown_counterexample:
  "listeners (run (initialize 320 32 (mount SliderProvider)) [MouseDown 160, MouseDown 160]) = 2
   \<and> emitted (calls (run (initialize 320 32 (mount SliderProvider)) [MouseDown 160, MouseDown 160])) = []
   \<and> emitted (calls (run (initialize 320 32 (mount SliderProvider))
        [MouseDown 160, MouseDown 160, MouseMove 165])) = [Fin 52, Fin 52]"
  by (simp add: eval_defs round_3725_72 numeral_2_eq_2)

section \<open>maxValue never changes (C10)\<close>

text \<open>
  C10. The store starts with \<open>maxValue\<close> 100 and the number 50. What it hands to its
  consumers is \<open>maxValue\<close>, the number, and \<open>setValue\<close>; \<open>setValue\<close> leaves
  \<open>maxValue\<close> alone, so after any sequence of \<open>setValue\<close> calls, and after any
  sequence of pointer events on a slider that reads this store, \<open>maxValue\<close> is 100.
\<close>

theorem C10_maxValue_constant:
  "SliderProvider = \<lparr>maxValue = Fin 100, value_s = Fin 50\<rparr>
   \<and> maxValue (setValue v c) = maxValue c
   \<and> maxValue (fold setValue vs SliderProvider) = Fin 100
   \<and> maxValue (ctx (run (initialize sliderWidth width (mount SliderProvider)) evs)) = Fin 100"
  by (simp add: maxValue_fold_setValue maxValue_run)
    (simp add: SliderProvider_def setValue_def initialize_def mount_def Let_def)

end
